theory Spec2Isabelle
  imports Complex_Main "HOL-Library.Word"
begin

unbundle bit_operations_syntax

section \<open>The resampler application (resampler.c)\<close>

text \<open>
  A shallow embedding of \<^verbatim>\<open>src/resampler/resampler.c\<close>: option handling
  (\<^verbatim>\<open>_set_options\<close>), the sample buffer allocator (\<^verbatim>\<open>_alloc_sample_buf\<close>),
  the DC blocking filter (\<^verbatim>\<open>dc_blocker_apply\<close>) and the streaming loop
  (\<^verbatim>\<open>process_fir\<close>). Names that start with an underscore in the source lose it here.
\<close>

subsection \<open>Result codes and ways to stop\<close>

text \<open>
  Modelled from the spec: \<^verbatim>\<open>tsl/errors.h\<close> and \<^verbatim>\<open>tsl/assert.h\<close> are not part of
  the source at hand. \<^verbatim>\<open>A_OK\<close> and \<^verbatim>\<open>A_E_INVAL\<close> are the codes the file names;
  \<^verbatim>\<open>A_E_NOMEM\<close> stands for the spec's allocation failure and \<^verbatim>\<open>A_E_BADARGS\<close> for
  its "caller-supplied invalid arguments", the code with which a failed
  \<^verbatim>\<open>TSL_ASSERT_ARG\<close> returns. \<^verbatim>\<open>FAILED\<close> holds of every code but \<^verbatim>\<open>A_OK\<close>.
\<close>

datatype aresult = A_OK | A_E_NOMEM | A_E_BADARGS | A_E_INVAL

definition FAILED :: "aresult \<Rightarrow> bool" where
  "FAILED r = (r \<noteq> A_OK)"

text \<open>The message identifiers of the fatal configuration messages, in source order.\<close>

datatype message =
    MISSING_SRC_DEST
  | BAD_DECIMATION
  | BAD_INTERPOLATION
  | BAD_FILTER_FILE
  | BAD_CONFIG
  | BAD_INPUT
  | BAD_OUTPUT

text \<open>The places where a \<^verbatim>\<open>TSL_BUG_ON\<close> or \<^verbatim>\<open>TSL_BUG_IF_FAILED\<close> can fire.\<close>

datatype bug =
    BUG_config_new
  | BUG_config_get_float_array
  | BUG_TCALLOC
  | BUG_polyphase_fir_full
  | BUG_alloc_sample_buf
  | BUG_partial_sample
  | BUG_push_sample_buf
  | BUG_polyphase_fir_process
  | BUG_no_new_samples
  | BUG_dc_blocker_apply

text \<open>
  How a run of \<^verbatim>\<open>_set_options\<close> ends when it does not return: \<^verbatim>\<open>exit(EXIT_SUCCESS)\<close>
  from \<^verbatim>\<open>_usage\<close>, \<^verbatim>\<open>exit(EXIT_FAILURE)\<close> after a message, or a panic.
\<close>

datatype halt = Exit_Success | Exit_Failure message | Panic bug

subsection \<open>Fixed-point constants and the narrowing of a double\<close>

text \<open>
  Modelled from the spec: the macro \<^verbatim>\<open>Q_15_SHIFT\<close> comes from the filter headers,
  which are not part of the source at hand; the spec gives the Q.15 scale as \<open>2^15\<close>.
\<close>

definition Q_15_SHIFT :: nat where
  "Q_15_SHIFT = 15"

text \<open>
  A finite \<^verbatim>\<open>double\<close> is a dyadic rational, and its product with \<open>2^15\<close> is exact
  (short of overflow), so taps are modelled as rationals. The cast
  \<^verbatim>\<open>(int16_t)x\<close> discards the fractional part when the integral part fits the type.
  When it does not fit, C leaves the result open; the model takes what the platform
  yields there as the parameter \<open>oor\<close>, so that nothing proved below depends on it.
\<close>

definition c_trunc :: "rat \<Rightarrow> int" where
  "c_trunc x = (if 0 \<le> x then \<lfloor>x\<rfloor> else \<lceil>x\<rceil>)"

definition fits_int16 :: "rat \<Rightarrow> bool" where
  "fits_int16 x = (- 32769 < x \<and> x < 32768)"

definition double_to_int16 :: "(rat \<Rightarrow> 16 word) \<Rightarrow> rat \<Rightarrow> 16 word" where
  "double_to_int16 oor x = (if fits_int16 x then word_of_int (c_trunc x) else oor x)"

text \<open>The body of the conversion loop: \<^verbatim>\<open>(int16_t)(filter_coeffs_f[i] * q15)\<close>.\<close>

definition q15_of_tap :: "(rat \<Rightarrow> 16 word) \<Rightarrow> rat \<Rightarrow> 16 word" where
  "q15_of_tap oor t = (let q15 = rat_of_int (push_bit Q_15_SHIFT 1) in double_to_int16 oor (t * q15))"

text \<open>
  The conversion as the specification writes it: \<open>round(t * 2^15)\<close>.
\<close>

definition round_q15 :: "rat \<Rightarrow> int" where
  "round_q15 t = round (t * 2 ^ 15)"

subsection \<open>Option handling\<close>

text \<open>The module-level variables of the file, with their initial values.\<close>

record globals =
  interpolate :: "32 word"
  decimate :: "32 word"
  input_sample_rate :: "32 word"
  in_fifo :: int
  out_fifo :: int
  filter_coeffs :: "16 word list"
  nr_filter_coeffs :: nat
  dc_blocker :: bool

definition initial_globals :: globals where
  "initial_globals =
     \<lparr> interpolate = 1, decimate = 1, input_sample_rate = 0, in_fifo = - 1, out_fifo = - 1,
       filter_coeffs = [], nr_filter_coeffs = 0, dc_blocker = False \<rparr>"

text \<open>
  What \<^verbatim>\<open>getopt\<close> hands to the switch, one value per round of the loop. The integer
  of \<open>Opt_I\<close>, \<open>Opt_D\<close> and \<open>Opt_S\<close> is what \<^verbatim>\<open>strtoll\<close> returned for the
  argument; \<open>Opt_other\<close> is any character the switch has no case for.
\<close>

datatype opt = Opt_I int | Opt_D int | Opt_S int | Opt_F string | Opt_b | Opt_h | Opt_other

text \<open>
  The \<^verbatim>\<open>while ((arg = getopt(...)) != -1)\<close> loop. Assigning the \<^verbatim>\<open>long long\<close> to
  an \<^verbatim>\<open>unsigned\<close> reduces it modulo \<open>2^32\<close>. \<^verbatim>\<open>-h\<close> leaves through \<^verbatim>\<open>_usage\<close>.
\<close>

fun getopt_loop :: "globals \<times> string option \<Rightarrow> opt list \<Rightarrow> halt + globals \<times> string option" where
  "getopt_loop st [] = Inr st"
| "getopt_loop (g, ff) (Opt_I v # os) = getopt_loop (g\<lparr>interpolate := word_of_int v\<rparr>, ff) os"
| "getopt_loop (g, ff) (Opt_D v # os) = getopt_loop (g\<lparr>decimate := word_of_int v\<rparr>, ff) os"
| "getopt_loop (g, ff) (Opt_S v # os) = getopt_loop (g\<lparr>input_sample_rate := word_of_int v\<rparr>, ff) os"
| "getopt_loop (g, ff) (Opt_F name # os) = getopt_loop (g, Some name) os"
| "getopt_loop (g, ff) (Opt_b # os) = getopt_loop (g\<lparr>dc_blocker := True\<rparr>, ff) os"
| "getopt_loop (g, ff) (Opt_h # os) = Inl Exit_Success"
| "getopt_loop (g, ff) (Opt_other # os) = getopt_loop (g, ff) os"

text \<open>The command line after \<^verbatim>\<open>getopt\<close> has run over it.\<close>

record cmdline =
  opts :: "opt list"
  optind :: int
  argc :: int

text \<open>
  What the calls out of \<^verbatim>\<open>_set_options\<close> return: the configuration engine, the
  allocator, the two \<^verbatim>\<open>open\<close> calls, and the platform's narrowing of a double
  that does not fit. \<open>lpfCoeffs\<close> is \<open>None\<close> when \<^verbatim>\<open>config_get_float_array\<close> fails.
\<close>

record environment =
  config_new_ret :: aresult
  config_add_ret :: aresult
  lpfCoeffs :: "rat list option"
  TCALLOC_ret :: aresult
  open_in_ret :: int
  open_out_ret :: int
  narrow_oor :: "rat \<Rightarrow> 16 word"

definition set_options :: "environment \<Rightarrow> cmdline \<Rightarrow> halt + globals" where
  "set_options env cl =
     (case getopt_loop (initial_globals, None) (opts cl) of
        Inl h \<Rightarrow> Inl h
      | Inr (g, filter_file) \<Rightarrow>
          if optind cl > argc cl then Inl (Exit_Failure MISSING_SRC_DEST)
          else if 0 = decimate g then Inl (Exit_Failure BAD_DECIMATION)
          else if 0 = decimate g then Inl (Exit_Failure BAD_INTERPOLATION)
          else if filter_file = None then Inl (Exit_Failure BAD_FILTER_FILE)
          else if FAILED (config_new_ret env) then Inl (Panic BUG_config_new)
          else if FAILED (config_add_ret env) then Inl (Exit_Failure BAD_CONFIG)
          else (case lpfCoeffs env of
              None \<Rightarrow> Inl (Panic BUG_config_get_float_array)
            | Some filter_coeffs_f \<Rightarrow>
                if FAILED (TCALLOC_ret env) then Inl (Panic BUG_TCALLOC)
                else
                  let g1 = g\<lparr> nr_filter_coeffs := length filter_coeffs_f,
                              filter_coeffs := map (q15_of_tap (narrow_oor env)) filter_coeffs_f \<rparr>;
                      g2 = g1\<lparr> in_fifo := open_in_ret env \<rparr>
                  in if 0 > in_fifo g2 then Inl (Exit_Failure BAD_INPUT)
                     else
                       let g3 = g2\<lparr> out_fifo := open_out_ret env \<rparr>
                       in if 0 > out_fifo g3 then Inl (Exit_Failure BAD_OUTPUT)
                          else Inr g3))"

definition platform_wrap :: "rat \<Rightarrow> 16 word" where
  \<comment> \<open>One platform's narrowing of a double that does not fit: the integral part reduced
      modulo \<open>2^16\<close>. Used only to make examples concrete.\<close>
  "platform_wrap x = word_of_int (c_trunc x)"

definition example_env :: "rat list \<Rightarrow> environment" where
  \<comment> \<open>An environment in which every call succeeds and the filter file holds the given taps.\<close>
  "example_env taps =
     \<lparr> config_new_ret = A_OK, config_add_ret = A_OK, lpfCoeffs = Some taps,
       TCALLOC_ret = A_OK, open_in_ret = 3, open_out_ret = 4, narrow_oor = platform_wrap \<rparr>"

definition example_cmdline :: "int \<Rightarrow> int \<Rightarrow> cmdline" where
  \<comment> \<open>\<^verbatim>\<open>resampler -I i -D d -F taps.json in out\<close>\<close>
  "example_cmdline i d = \<lparr> opts = [Opt_I i, Opt_D d, Opt_F ''taps.json''], optind = 7, argc = 9 \<rparr>"

subsection \<open>The sample buffer allocator\<close>

text \<open>
  Modelled from the spec: \<^verbatim>\<open>enum sample_type\<close> is declared in
  \<^verbatim>\<open>filter/sample_buf.h\<close>, which is not part of the source at hand. The spec's data
  model gives the tag two readings, "fixed-point scalar vs. complex pair". The source names
  the second \<^verbatim>\<open>COMPLEX_INT_16\<close>; the first is called \<open>REAL_INT_16\<close> here.
\<close>

datatype sample_type = REAL_INT_16 | COMPLEX_INT_16

datatype release_fn = free_sample_buf

text \<open>
  The fields of \<^verbatim>\<open>struct sample_buf\<close> that the file touches. \<open>data_buf\<close> is the
  byte region that follows the header in the same allocation.
\<close>

record sample_buf =
  refcount :: nat
  sample_type :: sample_type
  sample_buf_bytes :: nat
  nr_samples :: nat
  release :: release_fn
  priv :: "unit option"
  data_buf :: "8 word list"

definition NR_SAMPLES :: nat where
  "NR_SAMPLES = 1024"

definition sizeof_int16_t :: nat where
  "sizeof_int16_t = 2"

text \<open>
  \<^verbatim>\<open>_alloc_sample_buf\<close>, given what \<^verbatim>\<open>TCALLOC\<close> returns. The allocation is zeroed.
\<close>

definition alloc_sample_buf :: "aresult \<Rightarrow> aresult + sample_buf" where
  "alloc_sample_buf tcalloc_ret =
     (if FAILED tcalloc_ret then Inl tcalloc_ret
      else Inr \<lparr> refcount = 0,
                 sample_type = COMPLEX_INT_16,
                 sample_buf_bytes = NR_SAMPLES * sizeof_int16_t,
                 nr_samples = 0,
                 release = free_sample_buf,
                 priv = None,
                 data_buf = replicate (NR_SAMPLES * sizeof_int16_t) 0 \<rparr>)"

subsection \<open>The DC blocker\<close>

text \<open>
  \<^verbatim>\<open>struct dc_blocker\<close>: five \<^verbatim>\<open>int32_t\<close> registers. Arithmetic on them is
  modelled in two's complement, as 32-bit words: \<open>+\<close>, \<open>-\<close> and \<open>*\<close> wrap, the left
  shift is \<open>push_bit\<close>, the right shift of a signed value is \<open>signed_drop_bit\<close>, and
  the store of an \<^verbatim>\<open>int32_t\<close> into an \<^verbatim>\<open>int16_t\<close> keeps the low 16 bits. C itself
  leaves signed overflow and the shift of a negative value open and the narrowing to the
  implementation; this is what compilers for two's-complement machines produce.
\<close>

record dc_blocker =
  p :: "32 word"
  x_n_1 :: "32 word"
  y_n_1 :: "32 word"
  f :: "32 word"
  acc :: "32 word"

text \<open>
  The body of the \<^verbatim>\<open>for\<close> loop for one sample: the four assignments to the
  registers, then the store of \<^verbatim>\<open>y_n_1\<close> into the 16-bit sample.
\<close>

definition dc_blocker_sample :: "dc_blocker \<Rightarrow> 16 word \<Rightarrow> dc_blocker \<times> 16 word" where
  "dc_blocker_sample b s =
     (let b1 = b\<lparr> acc := acc b - x_n_1 b \<rparr>;
          b2 = b1\<lparr> x_n_1 := push_bit Q_15_SHIFT (scast s) \<rparr>;
          b3 = b2\<lparr> acc := acc b2 + (x_n_1 b2 - p b2 * y_n_1 b2) \<rparr>;
          b4 = b3\<lparr> y_n_1 := signed_drop_bit Q_15_SHIFT (acc b3) \<rparr>
      in (b4, ucast (y_n_1 b4)))"

text \<open>
  The loop \<^verbatim>\<open>for (i = 0; i < nr_samples; i++)\<close>, writing each result back at the
  index it was read from. The source has no bound on \<^verbatim>\<open>nr_samples\<close> other than its
  caller's; an index past the end of the block is \<open>None\<close> here.
\<close>

function dc_blocker_loop ::
  "nat \<Rightarrow> nat \<Rightarrow> dc_blocker \<Rightarrow> 16 word list \<Rightarrow> (dc_blocker \<times> 16 word list) option" where
  "dc_blocker_loop i nr b samples =
     (if i < nr then
        (if i < length samples then
           (case dc_blocker_sample b (samples ! i) of
              (b', out) \<Rightarrow> dc_blocker_loop (Suc i) nr b' (samples[i := out]))
         else None)
      else Some (b, samples))"
  by pat_completeness auto
termination
  by (relation "measure (\<lambda>(i, nr, b, samples). nr - i)") auto

declare dc_blocker_loop.simps [simp del]

text \<open>
  \<^verbatim>\<open>dc_blocker_apply\<close>: the result code, the blocker and the block afterwards.
  \<^verbatim>\<open>TSL_ASSERT_ARG(0 != nr_samples)\<close> returns \<^verbatim>\<open>A_E_BADARGS\<close> with nothing changed.
  The two pointer arguments are always valid here.
\<close>

definition dc_blocker_apply ::
  "dc_blocker \<Rightarrow> 16 word list \<Rightarrow> nat \<Rightarrow> (aresult \<times> dc_blocker \<times> 16 word list) option" where
  "dc_blocker_apply blocker samples nr =
     (if \<not> (0 \<noteq> nr) then Some (A_E_BADARGS, blocker, samples)
      else (case dc_blocker_loop 0 nr blocker samples of
              None \<Rightarrow> None
            | Some (blocker', samples') \<Rightarrow> Some (A_OK, blocker', samples')))"

text \<open>
  The same loop seen as one pass over the samples it visits, in order: the blocker
  afterwards and the outputs.
\<close>

fun dc_blocker_run :: "dc_blocker \<Rightarrow> 16 word list \<Rightarrow> dc_blocker \<times> 16 word list" where
  "dc_blocker_run b [] = (b, [])"
| "dc_blocker_run b (s # ss) =
     (case dc_blocker_sample b s of
        (b', out) \<Rightarrow> (case dc_blocker_run b' ss of (b'', outs) \<Rightarrow> (b'', out # outs)))"

text \<open>
  The blocker as \<^verbatim>\<open>process_fir\<close> sets it up: \<^verbatim>\<open>memset\<close> to zero, then the pole
  \<^verbatim>\<open>(int16_t)((1.0 - 0.9999) * (double)(1 << Q_15_SHIFT))\<close>. The exact product is
  \<open>3.2768\<close>; the double computed differs from it by far less than the distance to the next
  integer, so both narrow to \<open>3\<close>.
\<close>

definition blck_init :: "(rat \<Rightarrow> 16 word) \<Rightarrow> dc_blocker" where
  "blck_init oor =
     \<lparr> p = scast (double_to_int16 oor ((1 - 9999 / 10000) * rat_of_int (push_bit Q_15_SHIFT 1))),
       x_n_1 = 0, y_n_1 = 0, f = 0, acc = 0 \<rparr>"

subsection \<open>The recurrence as the specification writes it\<close>

text \<open>
  The per-sample recurrence of the specification, over the integers that the registers
  stand for. \<open>wrap w\<close> is the reduction of an integer to a signed \<open>w\<close>-bit register;
  \<open><< 15\<close> multiplies by \<open>2^15\<close> and \<open>>> 15\<close> divides by it, rounding down.
\<close>

definition wrap :: "nat \<Rightarrow> int \<Rightarrow> int" where
  "wrap w v = (v + 2 ^ (w - 1)) mod 2 ^ w - 2 ^ (w - 1)"

record recurrence =
  pole :: int
  x_prev :: int
  y_prev :: int
  accum :: int

definition recurrence_step :: "recurrence \<Rightarrow> int \<Rightarrow> recurrence \<times> int" where
  "recurrence_step r input_sample =
     (let acc1 = wrap 32 (accum r - x_prev r);
          x' = input_sample * 2 ^ 15;
          acc2 = wrap 32 (acc1 + (x' - pole r * y_prev r));
          y' = acc2 div 2 ^ 15
      in (\<lparr> pole = pole r, x_prev = x', y_prev = y', accum = acc2 \<rparr>, wrap 16 y'))"

fun recurrence_run :: "recurrence \<Rightarrow> int list \<Rightarrow> recurrence \<times> int list" where
  "recurrence_run r [] = (r, [])"
| "recurrence_run r (x # xs) =
     (case recurrence_step r x of
        (r', y) \<Rightarrow> (case recurrence_run r' xs of (r'', ys) \<Rightarrow> (r'', y # ys)))"

text \<open>The integers a blocker's registers stand for.\<close>

definition registers :: "dc_blocker \<Rightarrow> recurrence" where
  "registers b = \<lparr> pole = sint (p b), x_prev = sint (x_n_1 b), y_prev = sint (y_n_1 b), accum = sint (acc b) \<rparr>"

subsection \<open>The streaming loop\<close>

text \<open>
  What the outside returns during one round of the \<^verbatim>\<open>do ... while\<close> loop, call by
  call: \<^verbatim>\<open>polyphase_fir_full\<close> (its result and \<^verbatim>\<open>*full\<close>), \<^verbatim>\<open>TCALLOC\<close>
  inside \<^verbatim>\<open>_alloc_sample_buf\<close>, \<^verbatim>\<open>read\<close>, \<^verbatim>\<open>polyphase_fir_push_sample_buf\<close>,
  \<^verbatim>\<open>polyphase_fir_process\<close> (its result and the samples it stored at the front of
  \<^verbatim>\<open>output_buf\<close>, whose number is \<^verbatim>\<open>new_samples\<close>; the resampler's contract keeps
  it within the window), \<^verbatim>\<open>write\<close> and \<^verbatim>\<open>app_running\<close>. A call that the round does
  not reach leaves its entry unused. The bytes that \<^verbatim>\<open>read\<close> stores are not looked
  at by this file and are left out.
\<close>

record round_io =
  fir_full_ret :: "aresult \<times> bool"
  alloc_ret :: aresult
  read_ret :: int
  push_ret :: aresult
  process_ret :: "aresult \<times> 16 word list"
  write_ret :: int
  app_running_ret :: bool

text \<open>
  The calls a run makes, in order, with what it passes: the byte count asked of
  \<^verbatim>\<open>read\<close>, the \<^verbatim>\<open>nr_samples\<close> of the buffer pushed, the window capacity, the
  number of samples handed to the blocker, the samples written.
\<close>

datatype event =
    Ev_fir_full
  | Ev_alloc
  | Ev_read nat
  | Ev_push nat
  | Ev_process nat
  | Ev_dc_blocker nat
  | Ev_write "16 word list"
  | Ev_app_running

text \<open>
  How a run ends: \<^verbatim>\<open>process_fir\<close> returns a code, a \<^verbatim>\<open>TSL_BUG\<close> check panics, the
  blocker is driven past its block, or the loop is still going when the recorded rounds
  run out.
\<close>

datatype outcome = Returns aresult | Aborts bug | Out_of_bounds | Still_running

text \<open>The FILL half of a round. \<open>None\<close>: go on to the DRAIN half.\<close>

definition fill :: "round_io \<Rightarrow> event list \<times> outcome option" where
  "fill io =
     (if FAILED (fst (fir_full_ret io)) then ([Ev_fir_full], Some (Aborts BUG_polyphase_fir_full))
      else if False = snd (fir_full_ret io) then
        (case alloc_sample_buf (alloc_ret io) of
           Inl e \<Rightarrow> ([Ev_fir_full, Ev_alloc], Some (Aborts BUG_alloc_sample_buf))
         | Inr read_buf \<Rightarrow>
             let op_ret = read_ret io;
                 evs = [Ev_fir_full, Ev_alloc, Ev_read (sample_buf_bytes read_buf)]
             in if 0 \<ge> op_ret then (evs, Some (Returns A_E_INVAL))
                else if (1 AND op_ret) \<noteq> 0 then (evs, Some (Aborts BUG_partial_sample))
                else
                  let read_buf' = read_buf\<lparr> nr_samples := nat op_ret div sizeof_int16_t \<rparr>
                  in if FAILED (push_ret io)
                     then (evs @ [Ev_push (nr_samples read_buf')], Some (Aborts BUG_push_sample_buf))
                     else (evs @ [Ev_push (nr_samples read_buf')], None))
      else ([Ev_fir_full], None))"

text \<open>The \<^verbatim>\<open>write\<close> of the first \<^verbatim>\<open>new_samples\<close> entries of \<^verbatim>\<open>output_buf\<close>.\<close>

definition write_out ::
  "dc_blocker \<Rightarrow> 16 word list \<Rightarrow> nat \<Rightarrow> round_io \<Rightarrow>
     event list \<times> (outcome + dc_blocker \<times> 16 word list)" where
  "write_out blck output_buf new_samples io =
     (if 0 > write_ret io then ([Ev_write (take new_samples output_buf)], Inl (Returns A_E_INVAL))
      else ([Ev_write (take new_samples output_buf)], Inr (blck, output_buf)))"

text \<open>
  The DRAIN half: filter into \<^verbatim>\<open>output_buf\<close>, apply the blocker when the flag
  \<^verbatim>\<open>dc_blocker\<close> is set, write. \<open>Inr\<close>: the blocker and \<^verbatim>\<open>output_buf\<close> as the
  round leaves them.
\<close>

definition drain ::
  "bool \<Rightarrow> dc_blocker \<times> 16 word list \<Rightarrow> round_io \<Rightarrow>
     event list \<times> (outcome + dc_blocker \<times> 16 word list)" where
  "drain dc_flag st io =
     (case st of (blck, output_buf) \<Rightarrow>
        let new_samples = length (snd (process_ret io));
            output_buf1 = snd (process_ret io) @ drop new_samples output_buf
        in if FAILED (fst (process_ret io))
           then ([Ev_process NR_SAMPLES], Inl (Aborts BUG_polyphase_fir_process))
           else if 0 = new_samples then ([Ev_process NR_SAMPLES], Inl (Aborts BUG_no_new_samples))
           else if True = dc_flag then
             (case dc_blocker_apply blck output_buf1 new_samples of
                None \<Rightarrow> ([Ev_process NR_SAMPLES, Ev_dc_blocker new_samples], Inl Out_of_bounds)
              | Some (r, blck', output_buf2) \<Rightarrow>
                  if FAILED r
                  then ([Ev_process NR_SAMPLES, Ev_dc_blocker new_samples],
                        Inl (Aborts BUG_dc_blocker_apply))
                  else (case write_out blck' output_buf2 new_samples io of
                          (evs, res) \<Rightarrow> ([Ev_process NR_SAMPLES, Ev_dc_blocker new_samples] @ evs, res)))
           else (case write_out blck output_buf1 new_samples io of
                   (evs, res) \<Rightarrow> (Ev_process NR_SAMPLES # evs, res)))"

text \<open>
  The body of the \<^verbatim>\<open>do ... while\<close> loop: FILL, then DRAIN. \<open>Inl\<close>: the round
  left the loop by \<^verbatim>\<open>goto done\<close> or a panic.
\<close>

definition loop_body ::
  "bool \<Rightarrow> dc_blocker \<times> 16 word list \<Rightarrow> round_io \<Rightarrow>
     event list \<times> (outcome + dc_blocker \<times> 16 word list)" where
  "loop_body dc_flag st io =
     (case fill io of
        (evs1, Some out) \<Rightarrow> (evs1, Inl out)
      | (evs1, None) \<Rightarrow> (case drain dc_flag st io of (evs2, res) \<Rightarrow> (evs1 @ evs2, res)))"

text \<open>
  The \<^verbatim>\<open>do ... while (app_running())\<close> loop over the recorded rounds: the body
  first, the test after it. The first component is the trace of calls.
\<close>

fun process_loop ::
  "bool \<Rightarrow> dc_blocker \<times> 16 word list \<Rightarrow> round_io list \<Rightarrow> event list \<times> outcome" where
  "process_loop dc_flag st [] = ([], Still_running)"
| "process_loop dc_flag st (io # ios) =
     (case loop_body dc_flag st io of
        (evs, Inl out) \<Rightarrow> (evs, out)
      | (evs, Inr st') \<Rightarrow>
          if app_running_ret io
          then (case process_loop dc_flag st' ios of
                  (evs', out) \<Rightarrow> (evs @ [Ev_app_running] @ evs', out))
          else (evs @ [Ev_app_running], Returns A_OK))"

definition output_buf_init :: "16 word list" where
  "output_buf_init = replicate NR_SAMPLES 0"

definition process_fir :: "(rat \<Rightarrow> 16 word) \<Rightarrow> bool \<Rightarrow> round_io list \<Rightarrow> event list \<times> outcome" where
  "process_fir oor dc_flag ios = process_loop dc_flag (blck_init oor, output_buf_init) ios"

subsection \<open>Reading a trace\<close>

text \<open>The calls of the FILL half that take input: the allocation, the read and the push.\<close>

fun is_input_event :: "event \<Rightarrow> bool" where
  "is_input_event Ev_alloc = True"
| "is_input_event (Ev_read n) = True"
| "is_input_event (Ev_push buf) = True"
| "is_input_event e = False"

fun is_write :: "event \<Rightarrow> bool" where
  "is_write (Ev_write samples) = True"
| "is_write e = False"

text \<open>A round in which the resampler is full and every call of the DRAIN half succeeds.\<close>

definition full_round_ok :: "round_io \<Rightarrow> bool" where
  "full_round_ok io =
     (\<not> FAILED (fst (fir_full_ret io)) \<and> snd (fir_full_ret io)
      \<and> \<not> FAILED (fst (process_ret io)) \<and> snd (process_ret io) \<noteq> []
      \<and> 0 \<le> write_ret io)"

text \<open>Example rounds: the resampler full, or taking a read of the given size.\<close>

definition example_full_round :: "16 word list \<Rightarrow> bool \<Rightarrow> round_io" where
  "example_full_round produced running =
     \<lparr> fir_full_ret = (A_OK, True), alloc_ret = A_OK, read_ret = 2048, push_ret = A_OK,
       process_ret = (A_OK, produced), write_ret = 2 * int (length produced),
       app_running_ret = running \<rparr>"

definition example_read_round :: "int \<Rightarrow> 16 word list \<Rightarrow> bool \<Rightarrow> round_io" where
  "example_read_round bytes produced running =
     \<lparr> fir_full_ret = (A_OK, False), alloc_ret = A_OK, read_ret = bytes, push_ret = A_OK,
       process_ret = (A_OK, produced), write_ret = 2 * int (length produced),
       app_running_ret = running \<rparr>"

section \<open>Option handling and coefficient conversion\<close>

subsection \<open>Evaluating the narrowing\<close>

lemma floor_rat_numeral: "\<lfloor>(numeral a :: rat) / numeral b\<rfloor> = numeral a div numeral b"
  by (metis floor_divide_of_int_eq of_int_numeral)

lemma ceiling_rat_neg_numeral:
  "\<lceil>- ((numeral a :: rat) / numeral b)\<rceil> = - (numeral a div numeral b)"
  by (simp add: ceiling_def floor_rat_numeral)

lemmas tap_defs =
  q15_of_tap_def Q_15_SHIFT_def double_to_int16_def fits_int16_def c_trunc_def
  floor_rat_numeral ceiling_rat_neg_numeral

lemmas set_options_eval =
  set_options_def example_env_def example_cmdline_def initial_globals_def FAILED_def Let_def

lemma c_trunc_bounds: "fits_int16 x \<Longrightarrow> - 32768 \<le> c_trunc x \<and> c_trunc x \<le> 32767"
  unfolding fits_int16_def c_trunc_def
  by (auto simp: le_floor_iff floor_le_iff ceiling_le_iff le_ceiling_iff)

lemma sint_double_to_int16: "fits_int16 x \<Longrightarrow> sint (double_to_int16 oor x) = c_trunc x"
  using c_trunc_bounds [of x]
  by (simp add: double_to_int16_def sint_sbintrunc' signed_take_bit_int_eq_self)

subsection \<open>The factor checks\<close>

lemma getopt_loop_no_failure: "getopt_loop st os \<noteq> Inl (Exit_Failure m)"
  by (induction st os rule: getopt_loop.induct) auto

lemma set_options_never_bad_interpolation:
  "set_options env cl \<noteq> Inl (Exit_Failure BAD_INTERPOLATION)"
  using getopt_loop_no_failure
  by (auto simp: set_options_def Let_def split: sum.splits option.splits prod.splits if_splits)

text \<open>
  C1. The claim: a zero interpolation factor is detected as a configuration error before
  the streaming loop starts, as a zero decimation factor is. The source tests
  \<^verbatim>\<open>0 == decimate\<close> twice; the second test, whose message is
  \<^verbatim>\<open>BAD-INTERPOLATION\<close>, never looks at \<^verbatim>\<open>interpolate\<close>. So
  \<^verbatim>\<open>-I 0 -D 1\<close> is accepted and \<^verbatim>\<open>_set_options\<close> returns with
  \<^verbatim>\<open>interpolate = 0\<close>, while \<^verbatim>\<open>-I 1 -D 0\<close> exits with \<^verbatim>\<open>BAD-DECIMATION\<close>;
  no command line and no environment reaches the \<^verbatim>\<open>BAD-INTERPOLATION\<close> exit.
\<close>

theorem interpolate_zero_accepted:
  "set_options (example_env [1 / 2]) (example_cmdline 0 1) =
     Inr \<lparr> interpolate = 0, decimate = 1, input_sample_rate = 0, in_fifo = 3, out_fifo = 4,
           filter_coeffs = [16384], nr_filter_coeffs = 1, dc_blocker = False \<rparr>
   \<and> set_options (example_env [1 / 2]) (example_cmdline 1 0) = Inl (Exit_Failure BAD_DECIMATION)
   \<and> (\<forall>env cl. set_options env cl \<noteq> Inl (Exit_Failure BAD_INTERPOLATION))"
  using set_options_never_bad_interpolation
  by (simp add: set_options_eval tap_defs)

subsection \<open>Taps out of range\<close>

text \<open>
  C2, as the claim states it, fails: a tap of \<open>1.0\<close>, whose product \<open>32768\<close> does not fit
  a signed 16-bit integer, is not rejected. \<^verbatim>\<open>_set_options\<close> returns normally, with
  the tap stored as whatever the narrowing yields (here \<open>-32768\<close>).
\<close>

theorem tap_one_not_rejected:
  "set_options (example_env [1]) (example_cmdline 1 1) =
     Inr \<lparr> interpolate = 1, decimate = 1, input_sample_rate = 0, in_fifo = 3, out_fifo = 4,
           filter_coeffs = [- 32768], nr_filter_coeffs = 1, dc_blocker = False \<rparr>"
  by (simp add: set_options_eval tap_defs platform_wrap_def)

text \<open>
  C2, amended. The conversion step has no range check and no error path: when
  \<^verbatim>\<open>_set_options\<close> accepts a configuration with one list of taps, it accepts the same
  configuration with any other list, in range or not, and stores for each tap what the
  narrowing cast yields.
\<close>

theorem taps_never_rejected:
  assumes "set_options (env\<lparr> lpfCoeffs := Some ts \<rparr>) cl = Inr g"
  shows "set_options (env\<lparr> lpfCoeffs := Some ts' \<rparr>) cl =
           Inr (g\<lparr> nr_filter_coeffs := length ts',
                   filter_coeffs := map (q15_of_tap (narrow_oor env)) ts' \<rparr>)"
  using assms
  by (auto simp: set_options_def Let_def split: sum.splits option.splits prod.splits if_splits)

theorem taps_never_rejected_witness:
  "set_options (example_env [1 / 2]) (example_cmdline 1 1) =
     Inr \<lparr> interpolate = 1, decimate = 1, input_sample_rate = 0, in_fifo = 3, out_fifo = 4,
           filter_coeffs = [16384], nr_filter_coeffs = 1, dc_blocker = False \<rparr>
   \<and> set_options (example_env [1, 2, - 3]) (example_cmdline 1 1) =
     Inr \<lparr> interpolate = 1, decimate = 1, input_sample_rate = 0, in_fifo = 3, out_fifo = 4,
           filter_coeffs = [platform_wrap 32768, platform_wrap 65536, platform_wrap (- 98304)],
           nr_filter_coeffs = 3, dc_blocker = False \<rparr>"
proof -
  have a: "set_options ((example_env [])\<lparr> lpfCoeffs := Some [1 / 2] \<rparr>) (example_cmdline 1 1) =
     Inr \<lparr> interpolate = 1, decimate = 1, input_sample_rate = 0, in_fifo = 3, out_fifo = 4,
           filter_coeffs = [16384], nr_filter_coeffs = 1, dc_blocker = False \<rparr>"
    by (simp add: set_options_eval tap_defs)
  have e: "(example_env [])\<lparr> lpfCoeffs := Some ts \<rparr> = example_env ts" for ts
    by (simp add: example_env_def)
  show ?thesis
    using a taps_never_rejected [OF a, of "[1, 2, - 3]"]
    by (simp add: e) (simp add: example_env_def tap_defs)
qed

subsection \<open>Truncation, not rounding\<close>

text \<open>
  C3, as the claim states it, fails: the tap \<open>7 / 2^17\<close> has the product \<open>1.75\<close>, which
  rounds to \<open>2\<close>, and the source stores \<open>1\<close>.
\<close>

theorem tap_truncated_not_rounded:
  "sint (q15_of_tap platform_wrap (7 / 131072)) \<noteq> round_q15 (7 / 131072)
   \<and> sint (q15_of_tap platform_wrap (7 / 131072)) = 1
   \<and> round_q15 (7 / 131072) = 2"
  by (simp add: tap_defs round_q15_def round_def)

text \<open>
  C3, amended. Every tap of the configuration is converted once, by \<^verbatim>\<open>_set_options\<close>:
  the coefficient array it leaves holds one converted value per tap, in order. A tap \<open>t\<close>
  whose product \<open>t * 2^15\<close> fits a signed 16-bit integer is converted to that product with
  its fractional part discarded (truncation towards zero), not rounded. A tap of \<open>0.5\<close>
  converts to \<open>16384\<close> and a tap of \<open>-1.0\<close> to \<open>-32768\<close>.
\<close>

theorem tap_conversion:
  "(set_options env cl = Inr g \<and> lpfCoeffs env = Some ts \<longrightarrow>
      nr_filter_coeffs g = length ts \<and> filter_coeffs g = map (q15_of_tap (narrow_oor env)) ts)
   \<and> (fits_int16 (t * 2 ^ 15) \<longrightarrow> sint (q15_of_tap oor t) = c_trunc (t * 2 ^ 15))
   \<and> sint (q15_of_tap oor (1 / 2)) = 16384
   \<and> sint (q15_of_tap oor (- 1)) = - 32768"
proof (intro conjI impI)
  assume "set_options env cl = Inr g \<and> lpfCoeffs env = Some ts"
  then show "nr_filter_coeffs g = length ts"
    and "filter_coeffs g = map (q15_of_tap (narrow_oor env)) ts"
    by (auto simp: set_options_def Let_def split: sum.splits option.splits prod.splits if_splits)
next
  assume "fits_int16 (t * 2 ^ 15)"
  then show "sint (q15_of_tap oor t) = c_trunc (t * 2 ^ 15)"
    by (simp add: q15_of_tap_def Q_15_SHIFT_def sint_double_to_int16)
next
  show "sint (q15_of_tap oor (1 / 2)) = 16384"
    by (simp add: tap_defs)
  show "sint (q15_of_tap oor (- 1)) = - 32768"
    by (simp add: tap_defs)
qed

theorem tap_conversion_witness:
  "set_options (example_env [1 / 2, - 1, 7 / 131072]) (example_cmdline 3 2) =
     Inr \<lparr> interpolate = 3, decimate = 2, input_sample_rate = 0, in_fifo = 3, out_fifo = 4,
           filter_coeffs = [16384, - 32768, 1], nr_filter_coeffs = 3, dc_blocker = False \<rparr>
   \<and> fits_int16 ((- 7 / 131072) * 2 ^ 15)
   \<and> sint (q15_of_tap platform_wrap (- 7 / 131072)) = - 1"
proof -
  have a: "set_options (example_env [1 / 2, - 1, 7 / 131072]) (example_cmdline 3 2) =
     Inr \<lparr> interpolate = 3, decimate = 2, input_sample_rate = 0, in_fifo = 3, out_fifo = 4,
           filter_coeffs = [16384, - 32768, 1], nr_filter_coeffs = 3, dc_blocker = False \<rparr>"
    by (simp add: set_options_eval tap_defs)
  have b: "lpfCoeffs (example_env [1 / 2, - 1, 7 / 131072]) = Some [1 / 2, - 1, 7 / 131072]"
    by (simp add: example_env_def)
  have c: "fits_int16 ((- 7 / 131072) * 2 ^ 15)"
    by (simp add: fits_int16_def)
  have d: "c_trunc ((- 7 / 131072) * 2 ^ 15) = - 1"
    by (simp add: tap_defs)
  from tap_conversion [of "example_env [1 / 2, - 1, 7 / 131072]" "example_cmdline 3 2" _
      "[1 / 2, - 1, 7 / 131072]" "- 7 / 131072" platform_wrap] a b c d
  show ?thesis by simp
qed

section \<open>The sample buffer allocator\<close>

text \<open>
  C4. The claim: a buffer from the allocator holds at least 1024 fixed-point samples, has
  no valid samples, a reference count of zero, and the tag of the single-channel
  fixed-point format. The first three hold (2048 bytes of zeroed data, \<open>nr_samples = 0\<close>,
  \<open>refcount = 0\<close>). The tag does not: the source stores \<^verbatim>\<open>COMPLEX_INT_16\<close>, the
  complex-pair tag, although every size and count in the file is in units of one
  \<^verbatim>\<open>int16_t\<close>.
\<close>

theorem alloc_sample_buf_tag:
  "alloc_sample_buf A_OK =
     Inr \<lparr> refcount = 0, sample_type = COMPLEX_INT_16, sample_buf_bytes = 2048, nr_samples = 0,
           release = free_sample_buf, priv = None, data_buf = replicate 2048 0 \<rparr>
   \<and> COMPLEX_INT_16 \<noteq> REAL_INT_16"
  by (simp add: alloc_sample_buf_def FAILED_def NR_SAMPLES_def sizeof_int16_t_def)

section \<open>The DC blocker\<close>

subsection \<open>The registers as integers\<close>

lemma sint_eq_wrap32: "(w :: 32 word) = word_of_int v \<Longrightarrow> sint w = wrap 32 v"
  by (simp add: wrap_def int_word_sint)

lemma sint_eq_wrap16: "(w :: 16 word) = word_of_int v \<Longrightarrow> sint w = wrap 16 v"
  by (simp add: wrap_def int_word_sint)

lemma wrap32_id: "- (2 ^ 31) \<le> v \<Longrightarrow> v < 2 ^ 31 \<Longrightarrow> wrap 32 v = v"
  by (simp add: wrap_def)

lemma sint16_bounds: "- 32768 \<le> sint (s :: 16 word) \<and> sint s < 32768"
  using sint_ge [of s] sint_lt [of s] by simp

lemma sint_promote: "sint (push_bit Q_15_SHIFT (scast (s :: 16 word)) :: 32 word) = sint s * 2 ^ 15"
proof -
  have "(push_bit Q_15_SHIFT (scast s) :: 32 word) = word_of_int (sint s * 2 ^ 15)"
    by (simp add: Q_15_SHIFT_def push_bit_eq_mult)
  then have "sint (push_bit Q_15_SHIFT (scast s) :: 32 word) = wrap 32 (sint s * 2 ^ 15)"
    by (rule sint_eq_wrap32)
  also have "\<dots> = sint s * 2 ^ 15"
    using sint16_bounds [of s] by (intro wrap32_id) auto
  finally show ?thesis .
qed

lemma sint_demote: "sint (signed_drop_bit Q_15_SHIFT (w :: 32 word)) = sint w div 2 ^ 15"
  by (simp add: Q_15_SHIFT_def sint_signed_drop_bit_eq drop_bit_eq_div)

lemma sint_narrow: "sint (ucast (w :: 32 word) :: 16 word) = wrap 16 (sint w)"
proof -
  have "(ucast w :: 16 word) = word_of_int (sint w)"
    by (simp add: word_eq_iff_unsigned [where ?'a = int] unsigned_ucast_eq uint_word_of_int_eq take_bit_signed_take_bit sint_uint)
  then show ?thesis by (rule sint_eq_wrap16)
qed

subsection \<open>One sample\<close>

lemma dc_blocker_sample_registers:
  "registers (fst (dc_blocker_sample b s)) = fst (recurrence_step (registers b) (sint s))"
proof -
  have acc1: "sint (acc b - x_n_1 b) = wrap 32 (sint (acc b) - sint (x_n_1 b))"
    by (rule sint_eq_wrap32) simp
  have acc2: "sint (acc b - x_n_1 b + (push_bit Q_15_SHIFT (scast s) - p b * y_n_1 b))
      = wrap 32 (sint (acc b - x_n_1 b) + (sint s * 2 ^ 15 - sint (p b) * sint (y_n_1 b)))"
    by (rule sint_eq_wrap32) (simp add: Q_15_SHIFT_def push_bit_eq_mult)
  show ?thesis
    by (simp add: dc_blocker_sample_def recurrence_step_def registers_def Let_def
        sint_promote sint_demote acc1 acc2)
qed

lemma dc_blocker_sample_output:
  "sint (snd (dc_blocker_sample b s)) = snd (recurrence_step (registers b) (sint s))"
proof -
  have acc1: "sint (acc b - x_n_1 b) = wrap 32 (sint (acc b) - sint (x_n_1 b))"
    by (rule sint_eq_wrap32) simp
  have acc2: "sint (acc b - x_n_1 b + (push_bit Q_15_SHIFT (scast s) - p b * y_n_1 b))
      = wrap 32 (sint (acc b - x_n_1 b) + (sint s * 2 ^ 15 - sint (p b) * sint (y_n_1 b)))"
    by (rule sint_eq_wrap32) (simp add: Q_15_SHIFT_def push_bit_eq_mult)
  show ?thesis
    by (simp add: dc_blocker_sample_def recurrence_step_def registers_def Let_def
        sint_narrow sint_demote acc1 acc2)
qed

lemma dc_blocker_sample_f: "f (fst (dc_blocker_sample b s)) = f b"
  by (simp add: dc_blocker_sample_def Let_def)

subsection \<open>The loop over a block\<close>

lemma dc_blocker_run_length: "length (snd (dc_blocker_run b ss)) = length ss"
proof (induction ss arbitrary: b)
  case Nil
  show ?case by simp
next
  case (Cons s ss)
  obtain b' out where step: "dc_blocker_sample b s = (b', out)"
    by (cases "dc_blocker_sample b s")
  obtain b'' outs where rest: "dc_blocker_run b' ss = (b'', outs)"
    by (cases "dc_blocker_run b' ss")
  from Cons [of b'] rest show ?case by (simp add: step)
qed

lemma dc_blocker_run_f: "f (fst (dc_blocker_run b ss)) = f b"
proof (induction ss arbitrary: b)
  case Nil
  show ?case by simp
next
  case (Cons s ss)
  obtain b' out where step: "dc_blocker_sample b s = (b', out)"
    by (cases "dc_blocker_sample b s")
  obtain b'' outs where rest: "dc_blocker_run b' ss = (b'', outs)"
    by (cases "dc_blocker_run b' ss")
  from Cons [of b'] rest dc_blocker_sample_f [of b s] step
  show ?case by simp
qed

lemma dc_blocker_run_recurrence:
  "(registers (fst (dc_blocker_run b ss)), map sint (snd (dc_blocker_run b ss)))
     = recurrence_run (registers b) (map sint ss)"
proof (induction ss arbitrary: b)
  case Nil
  show ?case by simp
next
  case (Cons s ss)
  obtain b' out where step: "dc_blocker_sample b s = (b', out)"
    by (cases "dc_blocker_sample b s")
  obtain b'' outs where rest: "dc_blocker_run b' ss = (b'', outs)"
    by (cases "dc_blocker_run b' ss")
  from dc_blocker_sample_registers [of b s] dc_blocker_sample_output [of b s] step
  have rs: "recurrence_step (registers b) (sint s) = (registers b', sint out)"
    by (simp add: prod_eq_iff)
  from Cons [of b'] rest
  have rr: "recurrence_run (registers b') (map sint ss) = (registers b'', map sint outs)"
    by simp
  show ?case by (simp add: step rest rs rr)
qed

lemma dc_blocker_loop_run:
  "i \<le> nr \<Longrightarrow> nr \<le> length xs \<Longrightarrow>
   dc_blocker_loop i nr b xs =
     Some (fst (dc_blocker_run b (take (nr - i) (drop i xs))),
           take i xs @ snd (dc_blocker_run b (take (nr - i) (drop i xs))) @ drop nr xs)"
proof (induction i nr b xs rule: dc_blocker_loop.induct)
  case (1 i nr b samples)
  show ?case
  proof (cases "i < nr")
    case False
    with "1.prems" have "i = nr" by simp
    then show ?thesis by (simp add: dc_blocker_loop.simps [of nr nr])
  next
    case True
    with "1.prems" have inb: "i < length samples" by simp
    obtain b' out where step: "dc_blocker_sample b (samples ! i) = (b', out)"
      by (cases "dc_blocker_sample b (samples ! i)")
    have split: "take (nr - i) (drop i samples) = samples ! i # take (nr - Suc i) (drop (Suc i) samples)"
    proof -
      have "drop i samples = samples ! i # drop (Suc i) samples"
        using inb by (rule Cons_nth_drop_Suc [symmetric])
      moreover have "nr - i = Suc (nr - Suc i)"
        using True by simp
      ultimately show ?thesis by simp
    qed
    have IH: "dc_blocker_loop (Suc i) nr b' (samples[i := out]) =
      Some (fst (dc_blocker_run b' (take (nr - Suc i) (drop (Suc i) (samples[i := out])))),
            take (Suc i) (samples[i := out]) @
            snd (dc_blocker_run b' (take (nr - Suc i) (drop (Suc i) (samples[i := out])))) @
            drop nr (samples[i := out]))"
      using "1.IH" [OF True inb step [symmetric]] True "1.prems" by simp
    have d1: "drop (Suc i) (samples[i := out]) = drop (Suc i) samples" by simp
    have d2: "drop nr (samples[i := out]) = drop nr samples" using True by simp
    have t1: "take (Suc i) (samples[i := out]) = take i samples @ [out]"
      using inb by (simp add: take_Suc_conv_app_nth)
    have "dc_blocker_loop i nr b samples = dc_blocker_loop (Suc i) nr b' (samples[i := out])"
      using True inb by (subst dc_blocker_loop.simps) (simp add: step)
    then show ?thesis
      by (simp add: IH d1 d2 t1 split step split: prod.splits)
  qed
qed

lemma dc_blocker_apply_run:
  assumes "0 < nr" and "nr \<le> length samples"
  shows "dc_blocker_apply blocker samples nr =
     Some (A_OK, fst (dc_blocker_run blocker (take nr samples)),
           snd (dc_blocker_run blocker (take nr samples)) @ drop nr samples)"
  using assms dc_blocker_loop_run [of 0 nr samples blocker]
  by (simp add: dc_blocker_apply_def)

lemma blck_init_registers:
  "blck_init oor = \<lparr> p = 3, x_n_1 = 0, y_n_1 = 0, f = 0, acc = 0 \<rparr>"
  by (simp add: blck_init_def tap_defs)

text \<open>
  C5. The blocker that \<^verbatim>\<open>process_fir\<close> sets up has every register zero but the
  pole, which is \<open>(1 - 0.9999) * 2^15\<close> narrowed to an integer, that is \<open>3\<close>. Applied to
  a block with \<open>nr > 0\<close> samples, \<^verbatim>\<open>dc_blocker_apply\<close> succeeds and rewrites the
  first \<open>nr\<close> samples in place, leaving the rest of the block and the register \<open>f\<close>
  alone. Read as integers, the registers afterwards and the samples stored are those of
  the recurrence
  \<open>acc \<leftarrow> acc - x_prev; x_prev \<leftarrow> sample << 15; acc \<leftarrow> acc + x_prev - pole * y_prev;
  y_prev \<leftarrow> acc >> 15; output \<leftarrow> y_prev\<close>
  run over the samples in order, each assignment held in a 32-bit register and each
  output in a 16-bit sample. This holds from any state of the blocker, so also for every
  later block of the stream.
\<close>

theorem dc_blocker_apply_recurrence:
  assumes "0 < nr" and "nr \<le> length samples"
  shows "\<exists>blocker' samples'.
     dc_blocker_apply blocker samples nr = Some (A_OK, blocker', samples')
     \<and> length samples' = length samples
     \<and> drop nr samples' = drop nr samples
     \<and> (registers blocker', map sint (take nr samples'))
         = recurrence_run (registers blocker) (map sint (take nr samples))
     \<and> f blocker' = f blocker
     \<and> registers (blck_init oor) = \<lparr> pole = c_trunc ((1 - 9999 / 10000) * 2 ^ 15), x_prev = 0, y_prev = 0, accum = 0 \<rparr>
     \<and> f (blck_init oor) = 0
     \<and> c_trunc ((1 - 9999 / 10000) * 2 ^ 15) = 3"
proof -
  let ?run = "dc_blocker_run blocker (take nr samples)"
  have len: "length (snd ?run) = nr"
    using assms by (simp add: dc_blocker_run_length)
  have "dc_blocker_apply blocker samples nr = Some (A_OK, fst ?run, snd ?run @ drop nr samples)"
    using assms by (rule dc_blocker_apply_run)
  moreover have "length (snd ?run @ drop nr samples) = length samples"
    using assms len by simp
  moreover have "drop nr (snd ?run @ drop nr samples) = drop nr samples"
    using len by simp
  moreover have "(registers (fst ?run), map sint (take nr (snd ?run @ drop nr samples)))
         = recurrence_run (registers blocker) (map sint (take nr samples))"
    using len dc_blocker_run_recurrence [of blocker "take nr samples"] by simp
  moreover have "f (fst ?run) = f blocker"
    by (rule dc_blocker_run_f)
  moreover have "registers (blck_init oor) = \<lparr> pole = c_trunc ((1 - 9999 / 10000) * 2 ^ 15), x_prev = 0, y_prev = 0, accum = 0 \<rparr>"
    by (simp add: blck_init_registers registers_def tap_defs)
  moreover have "f (blck_init oor) = 0"
    by (simp add: blck_init_registers)
  moreover have "c_trunc ((1 - 9999 / 10000) * 2 ^ 15) = 3"
    by (simp add: tap_defs)
  ultimately show ?thesis by blast
qed

theorem dc_blocker_apply_recurrence_witness:
  "dc_blocker_apply (blck_init platform_wrap) [1000, 0, 5] 2 =
     Some (A_OK, \<lparr> p = 3, x_n_1 = 0, y_n_1 = - 1, f = 0, acc = - 3000 \<rparr>, [1000, - 1, 5])
   \<and> recurrence_run \<lparr> pole = 3, x_prev = 0, y_prev = 0, accum = 0 \<rparr> [1000, 0] =
     (\<lparr> pole = 3, x_prev = 0, y_prev = - 1, accum = - 3000 \<rparr>, [1000, - 1])"
proof -
  have ev: "dc_blocker_apply (blck_init platform_wrap) [1000, 0, 5] 2 =
     Some (A_OK, \<lparr> p = 3, x_n_1 = 0, y_n_1 = - 1, f = 0, acc = - 3000 \<rparr>, [1000, - 1, 5])"
    by code_simp
  from dc_blocker_apply_recurrence [of 2 "[1000, 0, 5]" "blck_init platform_wrap" platform_wrap]
  obtain b' s' where
    a: "dc_blocker_apply (blck_init platform_wrap) [1000, 0, 5] 2 = Some (A_OK, b', s')" and
    r: "(registers b', map sint (take 2 s')) =
          recurrence_run (registers (blck_init platform_wrap)) (map sint (take 2 [1000, 0, 5 :: 16 word]))"
    by auto
  from a ev have "b' = \<lparr> p = 3, x_n_1 = 0, y_n_1 = - 1, f = 0, acc = - 3000 \<rparr>" and "s' = [1000, - 1, 5]"
    by simp_all
  with r have "recurrence_run \<lparr> pole = 3, x_prev = 0, y_prev = 0, accum = 0 \<rparr> [1000, 0] =
     (\<lparr> pole = 3, x_prev = 0, y_prev = - 1, accum = - 3000 \<rparr>, [1000, - 1])"
    by (simp add: registers_def blck_init_registers)
  with ev show ?thesis by simp
qed

subsection \<open>Silence\<close>

text \<open>
  C6, as the claim states it, fails: silence is not a no-op in every state. After the
  one-sample block \<open>[1000]\<close> from the start state, the all-zero block \<open>[0]\<close> comes
  out as \<open>[-1]\<close>, and the previous input, previous output and accumulator all change.
\<close>

theorem silence_after_signal:
  "dc_blocker_apply (blck_init platform_wrap) [1000] 1 =
     Some (A_OK, \<lparr> p = 3, x_n_1 = 32768000, y_n_1 = 1000, f = 0, acc = 32768000 \<rparr>, [1000])
   \<and> dc_blocker_apply \<lparr> p = 3, x_n_1 = 32768000, y_n_1 = 1000, f = 0, acc = 32768000 \<rparr> [0] 1 =
     Some (A_OK, \<lparr> p = 3, x_n_1 = 0, y_n_1 = - 1, f = 0, acc = - 3000 \<rparr>, [- 1])
   \<and> dc_blocker_apply \<lparr> p = 3, x_n_1 = 32768000, y_n_1 = 1000, f = 0, acc = 32768000 \<rparr> [0] 1 \<noteq>
     Some (A_OK, \<lparr> p = 3, x_n_1 = 32768000, y_n_1 = 1000, f = 0, acc = 32768000 \<rparr>, [0])"
  by code_simp

lemma dc_blocker_sample_silence:
  assumes "x_n_1 b = 0" and "y_n_1 b = 0" and "signed_drop_bit Q_15_SHIFT (acc b) = 0"
  shows "dc_blocker_sample b 0 = (b, 0)"
  using assms by (simp add: dc_blocker_sample_def Let_def)

lemma dc_blocker_loop_silence:
  assumes "x_n_1 b = 0" and "y_n_1 b = 0" and "signed_drop_bit Q_15_SHIFT (acc b) = 0"
  shows "nr \<le> length xs \<Longrightarrow> (\<And>j. i \<le> j \<Longrightarrow> j < nr \<Longrightarrow> xs ! j = 0) \<Longrightarrow>
    dc_blocker_loop i nr b xs = Some (b, xs)"
proof (induction "nr - i" arbitrary: i)
  case 0
  then show ?case by (simp add: dc_blocker_loop.simps [of i nr])
next
  case (Suc k)
  then have lt: "i < nr" and inb: "i < length xs" by simp_all
  have z: "xs ! i = 0" using Suc.prems(2) [of i] lt by simp
  have upd: "xs[i := 0] = xs" using z list_update_id [of xs i] by simp
  have rest: "dc_blocker_loop (Suc i) nr b xs = Some (b, xs)"
    using Suc.hyps(1) [of "Suc i"] Suc.hyps(2) Suc.prems by simp
  have "dc_blocker_loop i nr b xs = dc_blocker_loop (Suc i) nr b xs"
    using lt inb
    by (subst dc_blocker_loop.simps) (simp add: z upd dc_blocker_sample_silence [OF assms])
  with rest show ?case by simp
qed

text \<open>
  C6, amended. When the blocker is at rest, that is its previous input and previous output
  are zero and its accumulator is below one output unit (\<open>acc >> 15 = 0\<close>), as it is when
  zero-initialised at stream start, applying it to a block whose first \<open>nr > 0\<close> samples
  are zero leaves the block and every register as they were.
\<close>

theorem dc_blocker_silence:
  assumes "0 < nr" and "nr \<le> length samples" and "\<forall>i < nr. samples ! i = 0"
    and "x_n_1 blocker = 0" and "y_n_1 blocker = 0"
    and "signed_drop_bit Q_15_SHIFT (acc blocker) = 0"
  shows "dc_blocker_apply blocker samples nr = Some (A_OK, blocker, samples)"
  using assms dc_blocker_loop_silence [of blocker nr samples 0]
  by (simp add: dc_blocker_apply_def)

theorem dc_blocker_silence_witness:
  "dc_blocker_apply (blck_init platform_wrap) (replicate 1024 0) 1024 =
     Some (A_OK, blck_init platform_wrap, replicate 1024 0)"
proof -
  have "signed_drop_bit Q_15_SHIFT (acc (blck_init platform_wrap)) = 0"
    by (simp add: blck_init_registers)
  with dc_blocker_silence [of 1024 "replicate 1024 0" "blck_init platform_wrap"]
  show ?thesis by (simp add: blck_init_registers)
qed

subsection \<open>Narrowing of the output\<close>

lemma wrap16_id_iff: "wrap 16 v = v \<longleftrightarrow> - 32768 \<le> v \<and> v \<le> 32767"
proof
  assume "wrap 16 v = v"
  then have "(v + 32768) mod 65536 = v + 32768" by (simp add: wrap_def)
  moreover have "0 \<le> (v + 32768) mod 65536" and "(v + 32768) mod 65536 < 65536" by simp_all
  ultimately show "- 32768 \<le> v \<and> v \<le> 32767" by linarith
next
  assume "- 32768 \<le> v \<and> v \<le> 32767"
  then show "wrap 16 v = v" by (simp add: wrap_def)
qed

text \<open>
  C10. The sample stored by one step is the 32-bit \<^verbatim>\<open>y_n_1\<close> cut to its low 16
  bits: as signed integers, the stored sample is \<open>y_n_1\<close> reduced modulo \<open>2^16\<close> into
  the signed range, and it equals \<open>y_n_1\<close> exactly when \<open>y_n_1\<close> lies within
  \<open>-32768 .. 32767\<close>. Nothing saturates and nothing fails: from the start state the
  block \<open>[32767, -32768]\<close> drives \<open>y_n_1\<close> to \<open>-32771\<close>, the call returns
  \<^verbatim>\<open>A_OK\<close>, and the sample stored is \<open>32765\<close>.
\<close>

theorem dc_blocker_output_wraps:
  "sint (snd (dc_blocker_sample b s)) = wrap 16 (sint (y_n_1 (fst (dc_blocker_sample b s))))
   \<and> (sint (snd (dc_blocker_sample b s)) = sint (y_n_1 (fst (dc_blocker_sample b s)))
       \<longleftrightarrow> - 32768 \<le> sint (y_n_1 (fst (dc_blocker_sample b s)))
            \<and> sint (y_n_1 (fst (dc_blocker_sample b s))) \<le> 32767)
   \<and> dc_blocker_apply (blck_init oor) [32767, - 32768] 2 =
       Some (A_OK, \<lparr> p = 3, x_n_1 = - 1073741824, y_n_1 = - 32771, f = 0, acc = - 1073840125 \<rparr>,
             [32767, 32765])"
proof -
  have n: "sint (snd (dc_blocker_sample b s)) = wrap 16 (sint (y_n_1 (fst (dc_blocker_sample b s))))"
    by (simp add: dc_blocker_sample_def Let_def sint_narrow)
  have e: "dc_blocker_apply \<lparr> p = 3, x_n_1 = 0, y_n_1 = 0, f = 0, acc = 0 \<rparr> [32767, - 32768] 2 =
       Some (A_OK, \<lparr> p = 3, x_n_1 = - 1073741824, y_n_1 = - 32771, f = 0, acc = - 1073840125 \<rparr>,
             [32767, 32765])"
    by code_simp
  show ?thesis
    using e by (simp only: n wrap16_id_iff blck_init_registers)
qed

section \<open>The streaming loop\<close>

subsection \<open>One round\<close>

lemma odd_and_one: "(1 AND (n :: int)) \<noteq> 0 \<longleftrightarrow> \<not> 2 dvd n"
  by (simp add: one_and_eq odd_iff_mod_2_eq_one)

lemma fill_partial_sample:
  assumes "\<not> FAILED (fst (fir_full_ret io))" and "\<not> snd (fir_full_ret io)"
    and "\<not> FAILED (alloc_ret io)" and "0 < read_ret io" and "\<not> 2 dvd read_ret io"
  shows "fill io = ([Ev_fir_full, Ev_alloc, Ev_read 2048], Some (Aborts BUG_partial_sample))"
  using assms
  by (simp add: fill_def alloc_sample_buf_def Let_def odd_and_one NR_SAMPLES_def sizeof_int16_t_def)

lemma fill_no_app_running: "Ev_app_running \<notin> set (fst (fill io))"
  by (simp add: fill_def Let_def split: sum.splits)

lemma fill_stops: "fill io = (evs, Some out) \<Longrightarrow> out \<noteq> Still_running \<and> out \<noteq> Returns A_OK"
  by (auto simp: fill_def Let_def split: sum.splits if_splits)

lemma fill_full: "snd (fir_full_ret io) \<Longrightarrow> fst (fill io) = [Ev_fir_full]"
  by (simp add: fill_def)

lemma drain_apply_ok:
  assumes "produced \<noteq> []"
  shows "\<exists>blck' buf'. dc_blocker_apply blck (produced @ drop (length produced) output_buf) (length produced)
           = Some (A_OK, blck', buf')"
  using assms dc_blocker_apply_run [of "length produced" "produced @ drop (length produced) output_buf" blck]
  by simp

lemma drain_no_input: "\<not> is_input_event e" if "e \<in> set (fst (drain dc_flag st io))"
  using that
  by (auto simp: drain_def write_out_def Let_def split: prod.splits option.splits if_splits)

lemma drain_no_app_running: "Ev_app_running \<notin> set (fst (drain dc_flag st io))"
  by (auto simp: drain_def write_out_def Let_def split: prod.splits option.splits if_splits)

lemma drain_stops:
  "drain dc_flag st io = (evs, Inl out) \<Longrightarrow> out \<noteq> Still_running \<and> out \<noteq> Returns A_OK"
  by (auto simp: drain_def write_out_def Let_def split: prod.splits option.splits if_splits)

lemma drain_continues:
  "drain dc_flag st io = (evs, Inr st') \<Longrightarrow> \<exists>evs' d. evs = evs' @ [Ev_write d]"
  by (auto simp: drain_def write_out_def Let_def split: prod.splits option.splits if_splits)

lemma loop_body_no_app_running: "Ev_app_running \<notin> set (fst (loop_body dc_flag st io))"
  using fill_no_app_running [of io] drain_no_app_running [of dc_flag st io]
  by (auto simp: loop_body_def split: prod.splits option.splits)

lemma loop_body_stops:
  "loop_body dc_flag st io = (evs, Inl out) \<Longrightarrow> out \<noteq> Still_running \<and> out \<noteq> Returns A_OK"
  using fill_stops [of io] drain_stops [of dc_flag st io]
  by (auto simp: loop_body_def split: prod.splits option.splits)

lemma loop_body_continues:
  "loop_body dc_flag st io = (evs, Inr st') \<Longrightarrow> \<exists>evs' d. evs = evs' @ [Ev_write d]"
  using drain_continues [of dc_flag st io]
  by (fastforce simp: loop_body_def split: prod.splits option.splits)

lemma loop_body_full_no_input:
  assumes "snd (fir_full_ret io)" and "e \<in> set (fst (loop_body dc_flag st io))"
  shows "\<not> is_input_event e"
  using assms fill_full [of io] drain_no_input [of e dc_flag st io]
  by (auto simp: loop_body_def split: prod.splits option.splits)

lemma fill_signal: "fill (io\<lparr> app_running_ret := r \<rparr>) = fill io"
  by (simp add: fill_def Let_def split: sum.splits)

lemma write_out_signal:
  "write_out blck buf n (io\<lparr> app_running_ret := r \<rparr>) = write_out blck buf n io"
  by (simp add: write_out_def)

lemma drain_signal: "drain dc_flag st (io\<lparr> app_running_ret := r \<rparr>) = drain dc_flag st io"
  by (simp add: drain_def write_out_signal Let_def cong: prod.case_cong option.case_cong if_cong)

lemma loop_body_signal: "loop_body dc_flag st (io\<lparr> app_running_ret := r \<rparr>) = loop_body dc_flag st io"
  by (simp add: loop_body_def fill_signal drain_signal split: prod.splits option.splits)

subsection \<open>Runs\<close>

lemma process_loop_append:
  "process_loop dc_flag st pre = (evs, Still_running) \<Longrightarrow>
   \<exists>st'. \<forall>rest. process_loop dc_flag st (pre @ rest) =
     (evs @ fst (process_loop dc_flag st' rest), snd (process_loop dc_flag st' rest))"
proof (induction pre arbitrary: st evs)
  case Nil
  then show ?case by (intro exI [of _ st]) simp
next
  case (Cons io pre)
  obtain evs1 res where body: "loop_body dc_flag st io = (evs1, res)"
    by (cases "loop_body dc_flag st io")
  show ?case
  proof (cases res)
    case (Inl out)
    with Cons.prems body loop_body_stops [of dc_flag st io evs1 out] show ?thesis by simp
  next
    case (Inr st1)
    obtain evs3 out3 where rest: "process_loop dc_flag st1 pre = (evs3, out3)"
      by (cases "process_loop dc_flag st1 pre")
    from Cons.prems body Inr rest have run: "app_running_ret io"
      and out3: "out3 = Still_running" and evs: "evs = evs1 @ [Ev_app_running] @ evs3"
      by (auto split: if_splits)
    from Cons.IH [of st1 evs3] rest out3 obtain st' where
      "\<forall>rest. process_loop dc_flag st1 (pre @ rest) =
         (evs3 @ fst (process_loop dc_flag st' rest), snd (process_loop dc_flag st' rest))"
      by auto
    then have "\<forall>rest. process_loop dc_flag st ((io # pre) @ rest) =
         (evs @ fst (process_loop dc_flag st' rest), snd (process_loop dc_flag st' rest))"
      using body Inr run evs by simp
    then show ?thesis by blast
  qed
qed

lemma process_loop_full_no_input:
  "(\<forall>io \<in> set ios. snd (fir_full_ret io)) \<Longrightarrow> e \<in> set (fst (process_loop dc_flag st ios)) \<Longrightarrow>
   \<not> is_input_event e"
proof (induction ios arbitrary: st)
  case Nil
  then show ?case by simp
next
  case (Cons io ios)
  obtain evs1 res where body: "loop_body dc_flag st io = (evs1, res)"
    by (cases "loop_body dc_flag st io")
  have here: "\<not> is_input_event e" if "e \<in> set evs1"
    using that Cons.prems(1) body loop_body_full_no_input [of io e dc_flag st] by simp
  show ?case
  proof (cases res)
    case (Inl out)
    with Cons.prems body here show ?thesis by simp
  next
    case (Inr st1)
    obtain evs3 out3 where rest: "process_loop dc_flag st1 ios = (evs3, out3)"
      by (cases "process_loop dc_flag st1 ios")
    have there: "\<not> is_input_event e" if "e \<in> set evs3"
      using that Cons.IH [of st1] Cons.prems(1) rest by simp
    from Cons.prems(2) body Inr rest have "e \<in> set evs1 \<or> e = Ev_app_running \<or> e \<in> set evs3"
      by (auto split: if_splits)
    with here there show ?thesis by auto
  qed
qed

lemma process_loop_success_ends_at_boundary:
  "process_loop dc_flag st ios = (evs, Returns A_OK) \<Longrightarrow>
   \<exists>evs' d. evs = evs' @ [Ev_write d, Ev_app_running]"
proof (induction ios arbitrary: st evs)
  case Nil
  then show ?case by simp
next
  case (Cons io ios)
  obtain evs1 res where body: "loop_body dc_flag st io = (evs1, res)"
    by (cases "loop_body dc_flag st io")
  show ?case
  proof (cases res)
    case (Inl out)
    with Cons.prems body loop_body_stops [of dc_flag st io evs1 out] show ?thesis by simp
  next
    case (Inr st1)
    from body Inr loop_body_continues [of dc_flag st io evs1 st1]
    obtain evs1' d where w: "evs1 = evs1' @ [Ev_write d]" by auto
    show ?thesis
    proof (cases "app_running_ret io")
      case False
      with Cons.prems body Inr w have "evs = evs1' @ [Ev_write d, Ev_app_running]" by auto
      then show ?thesis by blast
    next
      case True
      obtain evs3 out3 where rest: "process_loop dc_flag st1 ios = (evs3, out3)"
        by (cases "process_loop dc_flag st1 ios")
      with Cons.prems body Inr True have "out3 = Returns A_OK" and e: "evs = evs1 @ [Ev_app_running] @ evs3"
        by simp_all
      with Cons.IH [of st1 evs3] rest obtain evs' d' where "evs3 = evs' @ [Ev_write d', Ev_app_running]"
        by auto
      with e have "evs = (evs1 @ [Ev_app_running] @ evs') @ [Ev_write d', Ev_app_running]"
        by simp
      then show ?thesis by blast
    qed
  qed
qed


lemma loop_body_full_ok:
  assumes "full_round_ok io"
  shows "\<exists>evs d st'. loop_body dc_flag st io = (evs @ [Ev_write d], Inr st') \<and> (\<forall>e \<in> set evs. \<not> is_write e)"
proof -
  obtain blck output_buf where st: "st = (blck, output_buf)" by (cases st)
  let ?produced = "snd (process_ret io)"
  from assms have ne: "?produced \<noteq> []" by (simp add: full_round_ok_def)
  from drain_apply_ok [OF ne, of blck output_buf] obtain blck' buf' where
    ap: "dc_blocker_apply blck (?produced @ drop (length ?produced) output_buf) (length ?produced)
           = Some (A_OK, blck', buf')" by blast
  from assms have f: "fill io = ([Ev_fir_full], None)"
    by (simp add: fill_def full_round_ok_def)
  show ?thesis
  proof (cases dc_flag)
    case True
    with assms ne ap have "drain dc_flag st io =
      ([Ev_process NR_SAMPLES, Ev_dc_blocker (length ?produced)] @ [Ev_write (take (length ?produced) buf')],
       Inr (blck', buf'))"
      by (simp add: drain_def st write_out_def full_round_ok_def FAILED_def Let_def)
    with f have "loop_body dc_flag st io =
      ([Ev_fir_full, Ev_process NR_SAMPLES, Ev_dc_blocker (length ?produced)] @ [Ev_write (take (length ?produced) buf')],
       Inr (blck', buf'))"
      by (simp add: loop_body_def)
    moreover have "\<forall>e \<in> set [Ev_fir_full, Ev_process NR_SAMPLES, Ev_dc_blocker (length ?produced)]. \<not> is_write e"
      by simp
    ultimately show ?thesis by blast
  next
    case False
    with assms ne have "drain dc_flag st io =
      ([Ev_process NR_SAMPLES] @ [Ev_write (take (length ?produced) (?produced @ drop (length ?produced) output_buf))],
       Inr (blck, ?produced @ drop (length ?produced) output_buf))"
      by (simp add: drain_def st write_out_def full_round_ok_def Let_def)
    with f have "loop_body dc_flag st io =
      ([Ev_fir_full, Ev_process NR_SAMPLES] @ [Ev_write (take (length ?produced) (?produced @ drop (length ?produced) output_buf))],
       Inr (blck, ?produced @ drop (length ?produced) output_buf))"
      by (simp add: loop_body_def)
    moreover have "\<forall>e \<in> set [Ev_fir_full, Ev_process NR_SAMPLES]. \<not> is_write e"
      by simp
    ultimately show ?thesis by blast
  qed
qed

lemma process_loop_full_stop:
  assumes "\<forall>io \<in> set (pre @ [lst]). full_round_ok io"
    and "\<forall>io \<in> set pre. app_running_ret io" and "\<not> app_running_ret lst"
  shows "snd (process_loop dc_flag st (pre @ lst # later)) = Returns A_OK
    \<and> length (filter is_write (fst (process_loop dc_flag st (pre @ lst # later)))) = length pre + 1"
  using assms
proof (induction pre arbitrary: st)
  case Nil
  then have "full_round_ok lst" by simp
  from loop_body_full_ok [OF this, of dc_flag st] obtain evs d st' where
    "loop_body dc_flag st lst = (evs @ [Ev_write d], Inr st')" and "\<forall>e \<in> set evs. \<not> is_write e"
    by blast
  with Nil show ?case by simp
next
  case (Cons io pre)
  then have "full_round_ok io" and run: "app_running_ret io" by simp_all
  from loop_body_full_ok [OF this(1), of dc_flag st] obtain evs d st' where
    body: "loop_body dc_flag st io = (evs @ [Ev_write d], Inr st')" and nw: "\<forall>e \<in> set evs. \<not> is_write e"
    by blast
  from Cons.IH [of st'] Cons.prems
  have IH: "snd (process_loop dc_flag st' (pre @ lst # later)) = Returns A_OK
    \<and> length (filter is_write (fst (process_loop dc_flag st' (pre @ lst # later)))) = length pre + 1"
    by simp
  obtain evs3 out3 where rest: "process_loop dc_flag st' (pre @ lst # later) = (evs3, out3)"
    by (cases "process_loop dc_flag st' (pre @ lst # later)")
  with IH body run nw show ?case by simp
qed


lemma split_at_first:
  assumes "x \<notin> set xs" and "xs @ x # ys = a @ x # b"
  shows "a = xs \<and> b = ys \<or> (\<exists>a'. a = xs @ x # a' \<and> ys = a' @ x # b)"
  using assms by (auto simp: append_eq_append_conv2 Cons_eq_append_conv append_eq_Cons_conv)

lemma process_loop_sampled_after_write:
  "fst (process_loop dc_flag st ios) = a @ Ev_app_running # b \<Longrightarrow> \<exists>a' d. a = a' @ [Ev_write d]"
proof (induction ios arbitrary: st a b)
  case Nil
  then show ?case by simp
next
  case (Cons io ios)
  obtain evs1 res where body: "loop_body dc_flag st io = (evs1, res)"
    by (cases "loop_body dc_flag st io")
  from loop_body_no_app_running [of dc_flag st io] body
  have none: "Ev_app_running \<notin> set evs1" by simp
  show ?case
  proof (cases res)
    case (Inl out)
    with Cons.prems body have "evs1 = a @ Ev_app_running # b" by simp
    with none show ?thesis by simp
  next
    case (Inr st1)
    from body Inr loop_body_continues [of dc_flag st io evs1 st1]
    obtain evs1' d where w: "evs1 = evs1' @ [Ev_write d]" by auto
    define rest where "rest = (if app_running_ret io then fst (process_loop dc_flag st1 ios) else [])"
    from Cons.prems body Inr have "evs1 @ Ev_app_running # rest = a @ Ev_app_running # b"
      by (simp add: rest_def split: prod.splits if_splits)
    from split_at_first [OF none this]
    consider "a = evs1" | a' where "a = evs1 @ Ev_app_running # a'" and "rest = a' @ Ev_app_running # b"
      by blast
    then show ?thesis
    proof cases
      case 1
      with w show ?thesis by blast
    next
      case 2
      then have "fst (process_loop dc_flag st1 ios) = a' @ Ev_app_running # b"
        by (simp add: rest_def split: if_splits)
      from Cons.IH [OF this] obtain a3 d' where "a' = a3 @ [Ev_write d']" by blast
      with 2 have "a = (evs1 @ Ev_app_running # a3) @ [Ev_write d']" by simp
      then show ?thesis by blast
    qed
  qed
qed

lemma process_loop_signal_false:
  assumes "process_loop dc_flag st [io\<lparr> app_running_ret := True \<rparr>] = (evs, out)"
  shows "process_loop dc_flag st (io\<lparr> app_running_ret := False \<rparr> # ios) =
           (evs, if out = Still_running then Returns A_OK else out)"
proof -
  obtain evs1 res where body: "loop_body dc_flag st io = (evs1, res)"
    by (cases "loop_body dc_flag st io")
  show ?thesis
  proof (cases res)
    case (Inl out')
    with assms body loop_body_stops [of dc_flag st io evs1 out'] show ?thesis
      by (auto simp: loop_body_signal)
  next
    case (Inr st1)
    with assms body show ?thesis by (auto simp: loop_body_signal)
  qed
qed

lemma loop_body_read_round:
  assumes "\<not> FAILED (fst (fir_full_ret io))" and "\<not> snd (fir_full_ret io)"
    and "\<not> FAILED (alloc_ret io)" and "0 < read_ret io" and "2 dvd read_ret io"
    and "\<not> FAILED (push_ret io)" and "\<not> FAILED (fst (process_ret io))"
    and "snd (process_ret io) \<noteq> []" and "0 \<le> write_ret io"
  shows "\<exists>d st'. loop_body dc_flag st io =
     ([Ev_fir_full, Ev_alloc, Ev_read 2048, Ev_push (nat (read_ret io) div 2), Ev_process 1024]
        @ (if dc_flag then [Ev_dc_blocker (length (snd (process_ret io)))] else [])
        @ [Ev_write d], Inr st')"
proof -
  obtain blck output_buf where st: "st = (blck, output_buf)" by (cases st)
  let ?produced = "snd (process_ret io)"
  from drain_apply_ok [OF assms(8), of blck output_buf] obtain blck' buf' where
    ap: "dc_blocker_apply blck (?produced @ drop (length ?produced) output_buf) (length ?produced)
           = Some (A_OK, blck', buf')" by blast
  from assms have fl: "fill io =
      ([Ev_fir_full, Ev_alloc, Ev_read 2048, Ev_push (nat (read_ret io) div 2)], None)"
    by (simp add: fill_def alloc_sample_buf_def Let_def odd_and_one NR_SAMPLES_def sizeof_int16_t_def)
  show ?thesis
  proof (cases dc_flag)
    case True
    with assms ap have "drain dc_flag st io =
      ([Ev_process 1024, Ev_dc_blocker (length ?produced), Ev_write (take (length ?produced) buf')],
       Inr (blck', buf'))"
      by (simp add: drain_def st write_out_def FAILED_def Let_def NR_SAMPLES_def)
    with fl True show ?thesis by (simp add: loop_body_def)
  next
    case False
    with assms have "drain dc_flag st io =
      ([Ev_process 1024, Ev_write (take (length ?produced) (?produced @ drop (length ?produced) output_buf))],
       Inr (blck, ?produced @ drop (length ?produced) output_buf))"
      by (simp add: drain_def st write_out_def Let_def NR_SAMPLES_def)
    with fl False show ?thesis by (simp add: loop_body_def)
  qed
qed


subsection \<open>Partial samples\<close>

text \<open>
  C7. In any round of any run: when the resampler is not full, the buffer is allocated and
  \<^verbatim>\<open>read\<close> returns a positive byte count that is not a multiple of the sample
  width (2 bytes), the run ends there with the partial-sample panic. The round's calls
  are \<^verbatim>\<open>polyphase_fir_full\<close>, the allocation and the read, and nothing after them:
  no push, no filtering and no write.
\<close>

theorem partial_sample_is_fatal:
  assumes "process_fir oor dc_flag pre = (evs, Still_running)"
    and "\<not> FAILED (fst (fir_full_ret io))" and "\<not> snd (fir_full_ret io)"
    and "\<not> FAILED (alloc_ret io)" and "0 < read_ret io"
    and "\<not> int sizeof_int16_t dvd read_ret io"
  shows "process_fir oor dc_flag (pre @ io # ios) =
           (evs @ [Ev_fir_full, Ev_alloc, Ev_read (NR_SAMPLES * sizeof_int16_t)],
            Aborts BUG_partial_sample)"
proof -
  from assms(1) process_loop_append [of dc_flag "(blck_init oor, output_buf_init)" pre evs]
  obtain st' where
    "process_loop dc_flag (blck_init oor, output_buf_init) (pre @ io # ios) =
       (evs @ fst (process_loop dc_flag st' (io # ios)), snd (process_loop dc_flag st' (io # ios)))"
    by (auto simp: process_fir_def)
  moreover from assms have "fill io =
      ([Ev_fir_full, Ev_alloc, Ev_read 2048], Some (Aborts BUG_partial_sample))"
    by (intro fill_partial_sample) (simp_all add: sizeof_int16_t_def)
  ultimately show ?thesis
    by (simp add: process_fir_def loop_body_def sizeof_int16_t_def NR_SAMPLES_def)
qed

theorem partial_sample_is_fatal_witness:
  "process_fir platform_wrap True
     [example_read_round 2048 [5, 6] True, example_read_round 7 [1, 2] True,
      example_read_round 2048 [3] False]
   = ([Ev_fir_full, Ev_alloc, Ev_read 2048, Ev_push 1024, Ev_process 1024, Ev_dc_blocker 2,
       Ev_write [5, 5], Ev_app_running,
       Ev_fir_full, Ev_alloc, Ev_read 2048], Aborts BUG_partial_sample)"
proof -
  have first: "process_fir platform_wrap True [example_read_round 2048 [5, 6] True] =
     ([Ev_fir_full, Ev_alloc, Ev_read 2048, Ev_push 1024, Ev_process 1024, Ev_dc_blocker 2,
       Ev_write [5, 5], Ev_app_running], Still_running)"
    by code_simp
  from partial_sample_is_fatal [OF first, of "example_read_round 7 [1, 2] True"
      "[example_read_round 2048 [3] False]"]
  show ?thesis
    by (simp add: example_read_round_def FAILED_def sizeof_int16_t_def NR_SAMPLES_def)
qed

subsection \<open>A full resampler\<close>

text \<open>
  C8. A round in which the resampler reports full makes no allocation, no read and no
  push, from any state of the loop; so a run whose rounds are all full makes none at all.
  When moreover every call of those rounds succeeds and \<^verbatim>\<open>app_running\<close> turns
  false in some round, the run returns \<^verbatim>\<open>A_OK\<close> after exactly that round, having
  written once per round; later rounds are never started. And whenever a run returns
  \<^verbatim>\<open>A_OK\<close> its last two calls are a write and the \<^verbatim>\<open>app_running\<close> test: the exit
  on the signal is at the end of a round, never inside one.
\<close>

theorem full_resampler_only_writes:
  "(snd (fir_full_ret io) \<longrightarrow> (\<forall>e \<in> set (fst (loop_body dc_flag st io)). \<not> is_input_event e))
   \<and> ((\<forall>io \<in> set ios. snd (fir_full_ret io)) \<longrightarrow>
        (\<forall>e \<in> set (fst (process_fir oor dc_flag ios)). \<not> is_input_event e))
   \<and> ((\<forall>io \<in> set (pre @ [lst]). full_round_ok io) \<and> (\<forall>io \<in> set pre. app_running_ret io)
        \<and> \<not> app_running_ret lst \<longrightarrow>
        snd (process_fir oor dc_flag (pre @ lst # later)) = Returns A_OK
        \<and> length (filter is_write (fst (process_fir oor dc_flag (pre @ lst # later)))) = length pre + 1)
   \<and> (snd (process_fir oor dc_flag ios) = Returns A_OK \<longrightarrow>
        (\<exists>evs d. fst (process_fir oor dc_flag ios) = evs @ [Ev_write d, Ev_app_running]))"
proof (intro conjI impI ballI)
  fix e
  assume "snd (fir_full_ret io)" and "e \<in> set (fst (loop_body dc_flag st io))"
  then show "\<not> is_input_event e" by (rule loop_body_full_no_input)
next
  fix e
  assume "\<forall>io \<in> set ios. snd (fir_full_ret io)" and "e \<in> set (fst (process_fir oor dc_flag ios))"
  then show "\<not> is_input_event e"
    unfolding process_fir_def by (rule process_loop_full_no_input)
next
  assume a: "(\<forall>io \<in> set (pre @ [lst]). full_round_ok io) \<and> (\<forall>io \<in> set pre. app_running_ret io)
        \<and> \<not> app_running_ret lst"
  from a process_loop_full_stop [of pre lst dc_flag "(blck_init oor, output_buf_init)" later]
  show "snd (process_fir oor dc_flag (pre @ lst # later)) = Returns A_OK"
    and "length (filter is_write (fst (process_fir oor dc_flag (pre @ lst # later)))) = length pre + 1"
    by (simp_all add: process_fir_def)
next
  assume "snd (process_fir oor dc_flag ios) = Returns A_OK"
  then have "process_loop dc_flag (blck_init oor, output_buf_init) ios =
      (fst (process_fir oor dc_flag ios), Returns A_OK)"
    by (simp add: process_fir_def prod_eq_iff)
  then show "\<exists>evs d. fst (process_fir oor dc_flag ios) = evs @ [Ev_write d, Ev_app_running]"
    by (rule process_loop_success_ends_at_boundary)
qed

theorem full_resampler_only_writes_witness:
  "process_fir platform_wrap False
     [example_full_round [5, 6] True, example_full_round [1, 2] True,
      example_full_round [3] False, example_full_round [4] True]
   = ([Ev_fir_full, Ev_process 1024, Ev_write [5, 6], Ev_app_running,
       Ev_fir_full, Ev_process 1024, Ev_write [1, 2], Ev_app_running,
       Ev_fir_full, Ev_process 1024, Ev_write [3], Ev_app_running], Returns A_OK)
   \<and> length (filter is_write (fst (process_fir platform_wrap False
     [example_full_round [5, 6] True, example_full_round [1, 2] True,
      example_full_round [3] False, example_full_round [4] True]))) = 3"
proof -
  let ?pre = "[example_full_round [5, 6] True, example_full_round [1, 2] True]"
  let ?lst = "example_full_round [3] False"
  let ?later = "[example_full_round [4] True]"
  have h: "(\<forall>io \<in> set (?pre @ [?lst]). full_round_ok io) \<and> (\<forall>io \<in> set ?pre. app_running_ret io)
        \<and> \<not> app_running_ret ?lst"
    by (simp add: example_full_round_def full_round_ok_def FAILED_def)
  have tr: "fst (process_fir platform_wrap False (?pre @ ?lst # ?later)) =
      [Ev_fir_full, Ev_process 1024, Ev_write [5, 6], Ev_app_running,
       Ev_fir_full, Ev_process 1024, Ev_write [1, 2], Ev_app_running,
       Ev_fir_full, Ev_process 1024, Ev_write [3], Ev_app_running]"
    by code_simp
  from full_resampler_only_writes [of "example_full_round [5, 6] True" False
      "(blck_init platform_wrap, output_buf_init)" "?pre @ ?lst # ?later" platform_wrap ?pre ?lst ?later] h
  have "snd (process_fir platform_wrap False (?pre @ ?lst # ?later)) = Returns A_OK"
    and "length (filter is_write (fst (process_fir platform_wrap False (?pre @ ?lst # ?later)))) = 3"
    by simp_all
  with tr show ?thesis by (simp add: prod_eq_iff)
qed

subsection \<open>The test after the body\<close>

text \<open>
  C9, as the claim states it, fails: with the stop signal false from the start, the first
  round need not hold both a read and a write. When the resampler reports full the round
  has no read, and when the read returns 0 the loop is left before any write.
\<close>

theorem first_round_without_read:
  "process_fir platform_wrap False [example_full_round [1, 2] False] =
     ([Ev_fir_full, Ev_process 1024, Ev_write [1, 2], Ev_app_running], Returns A_OK)
   \<and> process_fir platform_wrap False [example_read_round 0 [1, 2] False] =
     ([Ev_fir_full, Ev_alloc, Ev_read 2048], Returns A_E_INVAL)"
  by code_simp

text \<open>
  C9, amended. \<^verbatim>\<open>app_running\<close> is tested only after a round is complete: in every
  trace each test comes directly after a write. So a stop signal that is already false
  before the loop is entered does not keep the first round from running: the round makes
  the same calls as with the signal true, and only its end differs, the run returning
  \<^verbatim>\<open>A_OK\<close> where it would have gone on. When the resampler is not full and every
  call succeeds, that first round is a full FILL and DRAIN: allocation, read, push,
  filtering, the blocker if enabled, and the write, before the one test of the signal.
\<close>

theorem stop_signal_sampled_after_round:
  "(\<forall>a b. fst (process_fir oor dc_flag ios) = a @ Ev_app_running # b \<longrightarrow>
        (\<exists>a' d. a = a' @ [Ev_write d]))
   \<and> (process_loop dc_flag st [io\<lparr> app_running_ret := True \<rparr>] = (evs, out) \<longrightarrow>
        process_loop dc_flag st (io\<lparr> app_running_ret := False \<rparr> # ios) =
          (evs, if out = Still_running then Returns A_OK else out))
   \<and> (\<not> FAILED (fst (fir_full_ret io)) \<and> \<not> snd (fir_full_ret io) \<and> \<not> FAILED (alloc_ret io)
        \<and> 0 < read_ret io \<and> 2 dvd read_ret io \<and> \<not> FAILED (push_ret io)
        \<and> \<not> FAILED (fst (process_ret io)) \<and> snd (process_ret io) \<noteq> [] \<and> 0 \<le> write_ret io
        \<and> \<not> app_running_ret io \<longrightarrow>
        (\<exists>d. process_fir oor dc_flag (io # ios) =
           ([Ev_fir_full, Ev_alloc, Ev_read 2048, Ev_push (nat (read_ret io) div 2), Ev_process 1024]
              @ (if dc_flag then [Ev_dc_blocker (length (snd (process_ret io)))] else [])
              @ [Ev_write d, Ev_app_running], Returns A_OK)))"
proof (intro conjI impI allI)
  fix a b
  assume "fst (process_fir oor dc_flag ios) = a @ Ev_app_running # b"
  then show "\<exists>a' d. a = a' @ [Ev_write d]"
    unfolding process_fir_def by (rule process_loop_sampled_after_write)
next
  assume "process_loop dc_flag st [io\<lparr> app_running_ret := True \<rparr>] = (evs, out)"
  then show "process_loop dc_flag st (io\<lparr> app_running_ret := False \<rparr> # ios) =
          (evs, if out = Still_running then Returns A_OK else out)"
    by (rule process_loop_signal_false)
next
  assume a: "\<not> FAILED (fst (fir_full_ret io)) \<and> \<not> snd (fir_full_ret io) \<and> \<not> FAILED (alloc_ret io)
        \<and> 0 < read_ret io \<and> 2 dvd read_ret io \<and> \<not> FAILED (push_ret io)
        \<and> \<not> FAILED (fst (process_ret io)) \<and> snd (process_ret io) \<noteq> [] \<and> 0 \<le> write_ret io
        \<and> \<not> app_running_ret io"
  then obtain d st' where "loop_body dc_flag (blck_init oor, output_buf_init) io =
     ([Ev_fir_full, Ev_alloc, Ev_read 2048, Ev_push (nat (read_ret io) div 2), Ev_process 1024]
        @ (if dc_flag then [Ev_dc_blocker (length (snd (process_ret io)))] else [])
        @ [Ev_write d], Inr st')"
    using loop_body_read_round [of io dc_flag "(blck_init oor, output_buf_init)"] by blast
  with a have "process_fir oor dc_flag (io # ios) =
           ([Ev_fir_full, Ev_alloc, Ev_read 2048, Ev_push (nat (read_ret io) div 2), Ev_process 1024]
              @ (if dc_flag then [Ev_dc_blocker (length (snd (process_ret io)))] else [])
              @ [Ev_write d, Ev_app_running], Returns A_OK)"
    by (simp add: process_fir_def)
  then show "\<exists>d. process_fir oor dc_flag (io # ios) =
           ([Ev_fir_full, Ev_alloc, Ev_read 2048, Ev_push (nat (read_ret io) div 2), Ev_process 1024]
              @ (if dc_flag then [Ev_dc_blocker (length (snd (process_ret io)))] else [])
              @ [Ev_write d, Ev_app_running], Returns A_OK)"
    by blast
qed


theorem stop_signal_sampled_after_round_witness:
  "process_fir platform_wrap True
     [example_read_round 2048 [5, 6] False, example_read_round 2048 [3] True] =
     ([Ev_fir_full, Ev_alloc, Ev_read 2048, Ev_push 1024, Ev_process 1024, Ev_dc_blocker 2,
       Ev_write [5, 5], Ev_app_running], Returns A_OK)
   \<and> process_loop True (blck_init platform_wrap, output_buf_init)
       [(example_read_round 2048 [5, 6] False)\<lparr> app_running_ret := True \<rparr>] =
     ([Ev_fir_full, Ev_alloc, Ev_read 2048, Ev_push 1024, Ev_process 1024, Ev_dc_blocker 2,
       Ev_write [5, 5], Ev_app_running], Still_running)
   \<and> (\<exists>a' d. [Ev_fir_full, Ev_alloc, Ev_read 2048, Ev_push 1024, Ev_process 1024, Ev_dc_blocker 2,
       Ev_write [5, 5]] = a' @ [Ev_write d])"
proof -
  let ?io = "example_read_round 2048 [5, 6] False"
  let ?ios = "[example_read_round 2048 [3] True]"
  let ?st = "(blck_init platform_wrap, output_buf_init)"
  let ?body = "[Ev_fir_full, Ev_alloc, Ev_read 2048, Ev_push 1024, Ev_process 1024, Ev_dc_blocker 2,
       Ev_write [5, 5]]"
  note inst = stop_signal_sampled_after_round
    [of platform_wrap True ?ios ?st ?io "?body @ [Ev_app_running]" Still_running]
  note inst' = stop_signal_sampled_after_round [of platform_wrap True "?io # ?ios"]
  have going: "process_loop True ?st [?io\<lparr> app_running_ret := True \<rparr>] =
      (?body @ [Ev_app_running], Still_running)"
    by code_simp
  from inst going
  have stopped: "process_loop True ?st (?io\<lparr> app_running_ret := False \<rparr> # ?ios) =
      (?body @ [Ev_app_running], Returns A_OK)"
    by simp
  have same: "?io\<lparr> app_running_ret := False \<rparr> = ?io"
    by (simp add: example_read_round_def)
  from stopped have run: "process_fir platform_wrap True (?io # ?ios) =
      (?body @ [Ev_app_running], Returns A_OK)"
    by (simp only: same process_fir_def)
  then have "fst (process_fir platform_wrap True (?io # ?ios)) = ?body @ Ev_app_running # []"
    by simp
  with inst' have "\<exists>a' d. ?body = a' @ [Ev_write d]"
    by blast
  with run going show ?thesis by simp
qed

end
